theory Spec2Isabelle
  imports Complex_Main "HOL-Library.Sublist"
begin

section \<open>contentReducer (content/3.composables/1.content-reducer.md)\<close>

text \<open>
  The array passed to \<open>contentReducer\<close> is an \<open>any[]\<close>.  Its elements are modelled by
  a datatype that has, next to the caller's own items, the two values the function itself
  can put into the result: JavaScript's \<open>undefined\<close> (what \<open>content[0]\<close> and
  \<open>content[content.length - 1]\<close> read from an empty array) and the node
  \<open>h('span', { class: 'text-gray-500 text-sm' }, `+${remainingCount} more`)\<close>, kept as
  the count it renders.
\<close>

datatype 'a element = Item 'a | Undefined | MoreSpan nat

text \<open>\<open>options?: ContentReducerOptions\<close>: both fields are optional booleans.\<close>

record ContentReducerOptions =
  firstAndLast :: "bool option"
  renderRemainingCount :: "bool option"

text \<open>\<open>ContentReducerReturn\<close>: every field but \<open>content\<close> is optional.\<close>

record 'a ContentReducerReturn =
  content :: "'a element list"
  remaining :: "'a element list option"
  remainingCount :: "nat option"
  cutIndex :: "int option"

text \<open>
  The first parameter is typed \<open>any[]\<close>, and the function starts with a run-time test
  \<open>Array.isArray(content)\<close>: a value that is not an array is handed back as it is.
\<close>

datatype ('a, 'x) content_arg = IsArray "'a element list" | NotArray 'x

datatype ('a, 'x) reducer_result = Passthrough 'x | Reduced "'a ContentReducerReturn"

text \<open>
  \<open>Array.prototype.slice(start, end)\<close>: a negative index counts from the end of the array,
  every index is clamped to \<open>0 .. length\<close>, and the result is empty when the final index
  is not beyond the first.
\<close>

definition relative_index :: "int \<Rightarrow> nat \<Rightarrow> nat" where
  "relative_index i len = (if i < 0 then nat (max (int len + i) 0) else min (nat i) len)"

definition js_slice :: "'a list \<Rightarrow> int \<Rightarrow> int option \<Rightarrow> 'a list" where
  "js_slice xs start fin =
     (let k = relative_index start (length xs);
          f = (case fin of None \<Rightarrow> length xs | Some e \<Rightarrow> relative_index e (length xs))
      in take (f - k) (drop k xs))"

text \<open>\<open>content[i]\<close>: \<open>undefined\<close> outside the array.\<close>

definition js_index :: "'a element list \<Rightarrow> int \<Rightarrow> 'a element" where
  "js_index xs i = (if 0 \<le> i \<and> nat i < length xs then xs ! nat i else Undefined)"

text \<open>\<open>options?.firstAndLast\<close> and \<open>options?.renderRemainingCount\<close> as conditions.\<close>

definition truthy :: "bool option \<Rightarrow> bool" where
  "truthy b = (b = Some True)"

definition opt_firstAndLast :: "ContentReducerOptions option \<Rightarrow> bool" where
  "opt_firstAndLast options = (case options of None \<Rightarrow> False | Some opts \<Rightarrow> truthy (firstAndLast opts))"

definition opt_renderRemainingCount :: "ContentReducerOptions option \<Rightarrow> bool" where
  "opt_renderRemainingCount options =
     (case options of None \<Rightarrow> False | Some opts \<Rightarrow> truthy (renderRemainingCount opts))"

text \<open>
  \<open>limit: number\<close> is the number of items to show and is modelled as an integer.  The
  model is exact for an integer limit of the safe range (below \<open>2^53\<close> in absolute value),
  where \<open>limit - 2\<close> and \<open>limitedLength + 1\<close> are computed without rounding; a fractional
  limit, \<open>NaN\<close> and the infinities have no counterpart in it.
\<close>

definition default_limit :: int where
  "default_limit = 5"

definition contentReducer ::
  "('a, 'x) content_arg \<Rightarrow> int \<Rightarrow> ContentReducerOptions option \<Rightarrow> ('a, 'x) reducer_result" where
  "contentReducer arg limit options =
     (case arg of
        NotArray v \<Rightarrow> Passthrough v
      | IsArray c \<Rightarrow>
          if int (length c) \<le> limit then
            Reduced \<lparr> content = c, remaining = None, remainingCount = None, cutIndex = None \<rparr>
          else
            let limitedLength = limit - 2;
                reducedContent =
                  (if opt_firstAndLast options
                   then [js_index c 0] @ js_slice c 1 (Some (limitedLength + 1))
                          @ [js_index c (int (length c) - 1)]
                   else js_slice c 0 (Some limit));
                remainingItems =
                  (if opt_firstAndLast options
                   then js_slice c (limitedLength + 1) (Some (int (length c) - 1))
                   else js_slice c limit None);
                cut = (if opt_firstAndLast options then limitedLength + 1 else limit);
                n = length remainingItems;
                rendered =
                  (if opt_renderRemainingCount options \<and> 0 < n
                   then reducedContent @ [MoreSpan n] else reducedContent)
            in Reduced \<lparr> content = rendered, remaining = Some remainingItems,
                         remainingCount = Some n, cutIndex = Some cut \<rparr>)"

text \<open>The call with \<open>limit\<close> left out: the parameter's default, \<open>limit: number = 5\<close>.\<close>

definition contentReducer_default ::
  "('a, 'x) content_arg \<Rightarrow> ContentReducerOptions option \<Rightarrow> ('a, 'x) reducer_result" where
  "contentReducer_default arg options = contentReducer arg default_limit options"


section \<open>useControlStateByURL\<close>

text \<open>
  \<open>ControlConfig\<close>: \<open>url\<close> is required, \<open>prefix\<close> and \<open>history\<close> are optional.  The
  field \<open>prefix\<close> is written \<open>prefix'\<close>, since \<open>prefix\<close> is the list library's name for
  what \<open>startsWith\<close> tests.
\<close>

record ControlConfig =
  url :: string
  prefix' :: "string option"
  history :: "bool option"

text \<open>
  The composable acts on the router of the host application only through three calls,
  \<open>router.push({ hash })\<close>, \<open>router.replace({ hash })\<close> and \<open>router.back()\<close>; a call is
  modelled by the value that names it.
\<close>

datatype router_call = Push string | Replace string | Back

text \<open>\<open>options.prefix\<close> as a condition: \<open>undefined\<close> and the empty string are falsy.\<close>

definition prefix_set :: "ControlConfig \<Rightarrow> bool" where
  "prefix_set options = (case prefix' options of None \<Rightarrow> False | Some p \<Rightarrow> p \<noteq> [])"

text \<open>\<open>const prefix = options.prefix ? `${options.prefix}-` : ""\<close>\<close>

definition hash_prefix :: "ControlConfig \<Rightarrow> string" where
  "hash_prefix options = (if prefix_set options then the (prefix' options) @ ''-'' else [])"

definition isActive :: "ControlConfig \<Rightarrow> string \<Rightarrow> bool" where
  "isActive options route_hash =
     (if hash_prefix options \<noteq> [] then prefix (''#'' @ hash_prefix options) route_hash
      else route_hash = ''#'' @ url options)"

text \<open>
  \<open>activate(url: string = options.url)\<close>: the argument may be left out, and then the
  default applies before the body runs.
\<close>

definition activate :: "ControlConfig \<Rightarrow> string option \<Rightarrow> router_call" where
  "activate options arg =
     (let u0 = (case arg of None \<Rightarrow> url options | Some u \<Rightarrow> u);
          u = (if \<not> prefix_set options then url options else u0)
      in Push (''#'' @ hash_prefix options @ u))"

definition deactivate :: "ControlConfig \<Rightarrow> router_call" where
  "deactivate options = (if truthy (history options) then Push [] else Back)"

definition go :: "ControlConfig \<Rightarrow> string \<Rightarrow> router_call" where
  "go options arg =
     (let u = (if \<not> prefix_set options then url options else arg)
      in if truthy (history options) then Push (''#'' @ hash_prefix options @ u)
         else Replace (''#'' @ hash_prefix options @ u))"


section \<open>ActivityTracker: the store of visit records\<close>

text \<open>
  The repository documents the tracker (content/3.composables/3.activity-tracker.md:
  \<open>config.max\<close>, \<open>config.exclude\<close>, \<open>track\<close>) and does not contain its implementation.
  The definitions of this section are therefore written from the specification, each one
  under a note that says so.  The state of the store is its record set, a list passed
  from one call to the next: what \<open>load\<close> reads before a call is what \<open>save\<close> wrote
  after the call before, and the storage backend itself is not modelled.  The scoring
  formula, which the specification leaves open, is a parameter
  \<open>sc count lastVisited currentTime\<close>.
\<close>

text \<open>Modelled from the spec: the implementation of the record type is missing.
  ``ActivityRecord: \<open>path\<close> (unique key within the store), \<open>count\<close> (integer, number of
  visits), \<open>lastVisited\<close> (timestamp), \<open>meta\<close> (opaque to the engine, passed through from
  the caller)''.  \<open>group\<close>, \<open>type\<close> and \<open>score\<close> are derived from these and not stored.
\<close>

record 'm ActivityRecord =
  path :: string
  count :: nat
  lastVisited :: int
  meta :: 'm

text \<open>Modelled from the spec: the implementation of the configuration object is missing.
  ``\<open>max\<close>: optional positive integer, unlimited if unset, capping total stored records;
  \<open>exclude\<close>: list of exact paths or prefixes to skip''.  The field \<open>max\<close> is written
  \<open>max'\<close>, since \<open>max\<close> is the library's maximum of two values.
\<close>

record Config =
  max' :: "nat option"
  exclude :: "string list"

text \<open>Modelled from the spec: the type of the argument of \<open>track\<close> is missing.  ``Route
  descriptor: any structure exposing at least \<open>path\<close> and optionally route \<open>name\<close>,
  \<open>params\<close>, \<open>query\<close>''; the optional part is the record's \<open>meta\<close>.
\<close>

record 'm RouteDescriptor =
  route_path :: string
  route_meta :: 'm

text \<open>Modelled from the spec: the implementation of the exclusion test is missing.  ``Paths
  matching a configured exclusion list (by exact path or by prefix)''.
\<close>

definition excluded :: "Config \<Rightarrow> string \<Rightarrow> bool" where
  "excluded cfg p = list_ex (\<lambda>e. p = e \<or> prefix e p) (exclude cfg)"

text \<open>Modelled from the spec: the scoring code is missing.  ``Score: purely a function of
  \<open>(count, lastVisited, currentTime)\<close>''; the function itself is the parameter \<open>sc\<close>.
\<close>

definition score :: "(nat \<Rightarrow> int \<Rightarrow> int \<Rightarrow> real) \<Rightarrow> int \<Rightarrow> 'm ActivityRecord \<Rightarrow> real" where
  "score sc now r = sc (count r) (lastVisited r) now"

text \<open>Modelled from the spec: the eviction code is missing.  ``Evicts the lowest-scoring
  existing record (ties broken by oldest \<open>lastVisited\<close>)'': \<open>less_relevant a b\<close> says that
  \<open>a\<close> goes before \<open>b\<close> in that order, \<open>lowest\<close> scans the records for the first one that
  no other record goes before, and \<open>evict\<close> removes it.
\<close>

definition less_relevant ::
  "(nat \<Rightarrow> int \<Rightarrow> int \<Rightarrow> real) \<Rightarrow> int \<Rightarrow> 'm ActivityRecord \<Rightarrow> 'm ActivityRecord \<Rightarrow> bool" where
  "less_relevant sc now a b =
     (score sc now a < score sc now b \<or>
      (score sc now a = score sc now b \<and> lastVisited a < lastVisited b))"

fun lowest ::
  "(nat \<Rightarrow> int \<Rightarrow> int \<Rightarrow> real) \<Rightarrow> int \<Rightarrow> 'm ActivityRecord \<Rightarrow> 'm ActivityRecord list
     \<Rightarrow> 'm ActivityRecord" where
  "lowest sc now best [] = best"
| "lowest sc now best (r # rs) =
     lowest sc now (if less_relevant sc now r best then r else best) rs"

definition evict ::
  "(nat \<Rightarrow> int \<Rightarrow> int \<Rightarrow> real) \<Rightarrow> int \<Rightarrow> 'm ActivityRecord list \<Rightarrow> 'm ActivityRecord list" where
  "evict sc now recs =
     (case recs of [] \<Rightarrow> [] | r # rs \<Rightarrow> remove1 (lowest sc now r rs) recs)"

text \<open>Modelled from the spec: the capacity test is missing.  ``If inserting a new record
  would exceed the configured maximum''; no maximum means no limit.
\<close>

definition would_exceed :: "Config \<Rightarrow> 'm ActivityRecord list \<Rightarrow> bool" where
  "would_exceed cfg recs = (case max' cfg of None \<Rightarrow> False | Some m \<Rightarrow> m < length recs + 1)"

text \<open>Modelled from the spec: the update of a visited record is missing.  ``Increments
  \<open>count\<close> and refreshes \<open>lastVisited\<close>''.
\<close>

definition visit :: "int \<Rightarrow> 'm ActivityRecord \<Rightarrow> 'm ActivityRecord" where
  "visit now r = r\<lparr> count := count r + 1, lastVisited := now \<rparr>"

text \<open>Modelled from the spec: the implementation of \<open>ActivityStore.upsert\<close> is missing.
  ``\<open>upsert(path, meta)\<close>: if a record for \<open>path\<close> exists, increments \<open>count\<close> and
  refreshes \<open>lastVisited\<close>; otherwise creates a new record with \<open>count = 1\<close>.  If inserting
  a new record would exceed the configured maximum, evicts the lowest-scoring existing
  record first.  No-op if \<open>path\<close> matches an exclusion rule.''  \<open>now\<close> is the time of the
  call.
\<close>

definition upsert ::
  "(nat \<Rightarrow> int \<Rightarrow> int \<Rightarrow> real) \<Rightarrow> Config \<Rightarrow> int \<Rightarrow> string \<Rightarrow> 'm
     \<Rightarrow> 'm ActivityRecord list \<Rightarrow> 'm ActivityRecord list" where
  "upsert sc cfg now p m recs =
     (if excluded cfg p then recs
      else if list_ex (\<lambda>r. path r = p) recs
      then map (\<lambda>r. if path r = p then visit now r else r) recs
      else (if would_exceed cfg recs then evict sc now recs else recs)
             @ [\<lparr> path = p, count = 1, lastVisited = now, meta = m \<rparr>])"

text \<open>Modelled from the spec: the implementation of \<open>track\<close> is missing.
  ``\<open>track(routeDescriptor)\<close>: extracts \<open>path\<close> and \<open>meta\<close> from the descriptor and
  delegates to \<open>ActivityStore.upsert\<close>''.
\<close>

definition track ::
  "(nat \<Rightarrow> int \<Rightarrow> int \<Rightarrow> real) \<Rightarrow> Config \<Rightarrow> int \<Rightarrow> 'm RouteDescriptor
     \<Rightarrow> 'm ActivityRecord list \<Rightarrow> 'm ActivityRecord list" where
  "track sc cfg now route recs = upsert sc cfg now (route_path route) (route_meta route) recs"

text \<open>Modelled from the spec: a sequence of \<open>track\<close> calls, each with the time it is made at;
  ``each \<open>track\<close> call fully commits before returning''.
\<close>

fun track_all ::
  "(nat \<Rightarrow> int \<Rightarrow> int \<Rightarrow> real) \<Rightarrow> Config \<Rightarrow> 'm ActivityRecord list
     \<Rightarrow> (int \<times> 'm RouteDescriptor) list \<Rightarrow> 'm ActivityRecord list" where
  "track_all sc cfg recs [] = recs"
| "track_all sc cfg recs (ev # evs) =
     track_all sc cfg (track sc cfg (fst ev) (snd ev) recs) evs"


section \<open>Properties of contentReducer\<close>

subsection \<open>The usage examples of the documentation\<close>

text \<open>
  The three calls shown under ``Usage'' in the documentation, on the ten items of the
  example, with the results the documentation prints.
\<close>

lemma usage_basic_cut:
  "contentReducer
     (IsArray (map Item [1, 2, 3, 4, 5, 6, 7, 8, 9, 10 :: nat]) :: (nat, unit) content_arg)
     5 None =
   Reduced \<lparr> content = map Item [1, 2, 3, 4, 5],
             remaining = Some (map Item [6, 7, 8, 9, 10]),
             remainingCount = Some 5, cutIndex = Some 5 \<rparr>"
  by (simp add: contentReducer_def js_slice_def relative_index_def
      opt_firstAndLast_def opt_renderRemainingCount_def)

lemma usage_first_and_last:
  "contentReducer
     (IsArray (map Item [1, 2, 3, 4, 5, 6, 7, 8, 9, 10 :: nat]) :: (nat, unit) content_arg)
     5 (Some \<lparr> firstAndLast = Some True, renderRemainingCount = None \<rparr>) =
   Reduced \<lparr> content = map Item [1, 2, 3, 4, 10],
             remaining = Some (map Item [5, 6, 7, 8, 9]),
             remainingCount = Some 5, cutIndex = Some 4 \<rparr>"
  by (simp add: contentReducer_def js_slice_def relative_index_def js_index_def
      opt_firstAndLast_def opt_renderRemainingCount_def truthy_def)

lemma usage_render_remaining_count:
  "contentReducer
     (IsArray (map Item [1, 2, 3, 4, 5, 6, 7, 8, 9, 10 :: nat]) :: (nat, unit) content_arg)
     5 (Some \<lparr> firstAndLast = None, renderRemainingCount = Some True \<rparr>) =
   Reduced \<lparr> content = map Item [1, 2, 3, 4, 5] @ [MoreSpan 5],
             remaining = Some (map Item [6, 7, 8, 9, 10]),
             remainingCount = Some 5, cutIndex = Some 5 \<rparr>"
  by (simp add: contentReducer_def js_slice_def relative_index_def
      opt_firstAndLast_def opt_renderRemainingCount_def truthy_def)

subsection \<open>Arrays within the limit\<close>

text \<open>
  C8.  For every array whose length is at most \<open>limit\<close>, \<open>contentReducer\<close> returns the
  array itself as \<open>content\<close>, and \<open>remaining\<close>, \<open>remainingCount\<close> and \<open>cutIndex\<close> are absent,
  whatever the options are.
\<close>

theorem contentReducer_within_limit:
  "int (length c) \<le> limit \<Longrightarrow>
   contentReducer (IsArray c) limit options =
     Reduced \<lparr> content = c, remaining = None, remainingCount = None, cutIndex = None \<rparr>"
  by (simp add: contentReducer_def)

theorem contentReducer_within_limit_witness:
  "int (length [Item (1::nat), Item 2, Item 3]) \<le> 5 \<and>
   contentReducer (IsArray [Item (1::nat), Item 2, Item 3] :: (nat, unit) content_arg) 5
     (Some \<lparr> firstAndLast = Some True, renderRemainingCount = Some True \<rparr>) =
   Reduced \<lparr> content = [Item 1, Item 2, Item 3], remaining = None,
             remainingCount = None, cutIndex = None \<rparr>"
proof -
  have h: "int (length [Item (1::nat), Item 2, Item 3]) \<le> 5" by simp
  show ?thesis using h contentReducer_within_limit [OF h] by simp
qed

subsection \<open>First and last\<close>

lemma first_last_content:
  assumes "limit < int (length c)" and "opt_firstAndLast options"
    and "\<not> opt_renderRemainingCount options"
  shows "contentReducer (IsArray c) limit options =
     Reduced \<lparr> content = [js_index c 0] @ js_slice c 1 (Some (limit - 1))
                           @ [js_index c (int (length c) - 1)],
               remaining = Some (js_slice c (limit - 1) (Some (int (length c) - 1))),
               remainingCount =
                 Some (length (js_slice c (limit - 1) (Some (int (length c) - 1)))),
               cutIndex = Some (limit - 1) \<rparr>"
  using assms by (simp add: contentReducer_def Let_def)

lemma length_slice_mid:
  assumes "2 \<le> limit" and "limit < int (length c)"
  shows "int (length (js_slice c 1 (Some (limit - 1)))) = limit - 2"
proof -
  have "relative_index 1 (length c) = 1"
    using assms by (simp add: relative_index_def)
  moreover have "relative_index (limit - 1) (length c) = nat (limit - 1)"
    using assms by (simp add: relative_index_def)
  ultimately have "length (js_slice c 1 (Some (limit - 1))) =
      min (nat (limit - 1) - 1) (length c - 1)"
    by (simp add: js_slice_def)
  then show ?thesis using assms by simp
qed

lemma slice_limit_one: "js_slice c 1 (Some 0) = []"
  by (simp add: js_slice_def relative_index_def)

lemma js_index_first: "c \<noteq> [] \<Longrightarrow> js_index c 0 = c ! 0"
  by (simp add: js_index_def)

lemma js_index_last: "c \<noteq> [] \<Longrightarrow> js_index c (int (length c) - 1) = c ! (length c - 1)"
  by (cases c) (simp_all add: js_index_def)

text \<open>
  On integer limits the branch does what its comments say from \<open>limit = 1\<close> upwards:
  \<open>limit\<close> elements from \<open>c[0]\<close> to \<open>c[c.length - 1]\<close> when \<open>limit \<ge> 2\<close>, and the two
  elements \<open>c[0]\<close> and \<open>c[c.length - 1]\<close> when \<open>limit = 1\<close>.  For \<open>limit \<le> 0\<close> the final
  index \<open>limit - 1\<close> of \<open>content.slice(1, limitedLength + 1)\<close> is negative and counts from
  the end of the array, and the content has \<open>max 2 (c.length + limit)\<close> elements.
\<close>

lemma first_and_last_from_two:
  assumes "2 \<le> limit" and "limit < int (length c)" and "opt_firstAndLast options"
    and "\<not> opt_renderRemainingCount options"
  shows "\<exists>r. contentReducer (IsArray c) limit options = Reduced r \<and>
           int (length (content r)) = limit \<and> hd (content r) = c ! 0 \<and>
           last (content r) = c ! (length c - 1) \<and> cutIndex r = Some (limit - 1)"
proof -
  have ne: "c \<noteq> []" using assms(1,2) by auto
  show ?thesis
    using assms(1,2) length_slice_mid [OF assms(1,2)]
    by (simp add: first_last_content [OF assms(2-4)] js_index_first [OF ne]
        js_index_last [OF ne])
qed

lemma first_and_last_limit_one:
  assumes "1 < int (length c)" and "opt_firstAndLast options"
    and "\<not> opt_renderRemainingCount options"
  shows "\<exists>r. contentReducer (IsArray c) 1 options = Reduced r \<and>
           content r = [c ! 0, c ! (length c - 1)]"
proof -
  have ne: "c \<noteq> []" using assms(1) by auto
  show ?thesis
    by (simp add: first_last_content [OF assms] slice_limit_one js_index_first [OF ne]
        js_index_last [OF ne])
qed

lemma length_slice_nonpositive:
  assumes "limit \<le> 0" and "limit < int (length c)"
  shows "int (length (js_slice c 1 (Some (limit - 1)))) = max 0 (int (length c) + limit - 2)"
proof -
  have k: "relative_index 1 (length c) = min 1 (length c)"
    by (simp add: relative_index_def)
  have f: "relative_index (limit - 1) (length c) = nat (int (length c) + limit - 1)"
    using assms by (simp add: relative_index_def max_def algebra_simps)
  have "length (js_slice c 1 (Some (limit - 1))) =
      min (nat (int (length c) + limit - 1) - min 1 (length c)) (length c - min 1 (length c))"
    by (simp add: js_slice_def k f Let_def min.commute)
  then show ?thesis using assms by (simp add: min_def max_def) arith
qed

lemma first_and_last_nonpositive_limit:
  assumes "limit \<le> 0" and "limit < int (length c)" and "opt_firstAndLast options"
    and "\<not> opt_renderRemainingCount options"
  shows "\<exists>r. contentReducer (IsArray c) limit options = Reduced r \<and>
           int (length (content r)) = max 2 (int (length c) + limit)"
  using length_slice_nonpositive [OF assms(1,2)]
  by (simp add: first_last_content [OF assms(2-4)] max_def)

text \<open>
  C9.  For an array \<open>c\<close> longer than \<open>limit\<close>, with \<open>firstAndLast\<close> set and
  \<open>renderRemainingCount\<close> not set, the content is to have exactly \<open>limit\<close> elements from
  \<open>c[0]\<close> to \<open>c[c.length - 1]\<close> with \<open>cutIndex = limit - 1\<close> when \<open>limit \<ge> 2\<close>, and the two
  elements \<open>c[0]\<close> and \<open>c[c.length - 1]\<close> when \<open>limit < 2\<close>.  The code misses the second
  part at \<open>limit = 0\<close>: on \<open>[1, 2, 3]\<close> the slice that its comment describes as ``all items
  that can be shown except first and last'' is \<open>content.slice(1, -1)\<close>, the middle item,
  so the content is all three items, nothing remains, and \<open>cutIndex\<close> is \<open>-1\<close>.
\<close>

theorem contentReducer_limit_zero:
  "contentReducer (IsArray [Item (1::nat), Item 2, Item 3] :: (nat, unit) content_arg) 0
     (Some \<lparr> firstAndLast = Some True, renderRemainingCount = None \<rparr>) =
   Reduced \<lparr> content = [Item 1, Item 2, Item 3], remaining = Some [],
             remainingCount = Some 0, cutIndex = Some (- 1) \<rparr> \<and>
   length (content \<lparr> content = [Item (1::nat), Item 2, Item 3], remaining = Some [],
             remainingCount = Some 0, cutIndex = Some (- 1) \<rparr>) \<noteq> 2"
  by (simp add: contentReducer_def js_slice_def relative_index_def js_index_def
      opt_firstAndLast_def opt_renderRemainingCount_def truthy_def)


section \<open>Properties of useControlStateByURL\<close>

text \<open>
  The example of the documentation, \<open>{ url: 'tab1', prefix: 'modal' }\<close>: \<open>activate()\<close>
  opens \<open>#modal-tab1\<close> and \<open>go('tab2')\<close> replaces the hash by \<open>#modal-tab2\<close>.
\<close>

lemma activate_with_prefix:
  "activate \<lparr> url = ''tab1'', prefix' = Some ''modal'', history = None \<rparr> None = Push ''#modal-tab1'' \<and>
   go \<lparr> url = ''tab1'', prefix' = Some ''modal'', history = None \<rparr> ''tab2'' = Replace ''#modal-tab2''"
  by (simp add: activate_def go_def prefix_set_def hash_prefix_def truthy_def)

text \<open>
  C10.  For every configuration whose \<open>prefix\<close> is not set, \<open>activate\<close> and \<open>go\<close> ignore
  their argument: whatever it is, and also when \<open>activate\<close> is called without one, the
  hash they navigate to is \<open>'#' + options.url\<close>.  \<open>activate\<close> pushes it; \<open>go\<close> pushes it in
  history mode and replaces the current entry otherwise.
\<close>

theorem control_without_prefix:
  assumes "prefix' options = None"
  shows "activate options arg = Push (''#'' @ url options) \<and>
         go options u = (if truthy (history options) then Push (''#'' @ url options)
                         else Replace (''#'' @ url options))"
  using assms by (simp add: activate_def go_def prefix_set_def hash_prefix_def)

theorem control_without_prefix_witness:
  "prefix' \<lparr> url = ''modal'', prefix' = None, history = None \<rparr> = None \<and>
   activate \<lparr> url = ''modal'', prefix' = None, history = None \<rparr> (Some ''tab2'') = Push ''#modal'' \<and>
   go \<lparr> url = ''modal'', prefix' = None, history = None \<rparr> ''tab2'' = Replace ''#modal'' \<and>
   go \<lparr> url = ''modal'', prefix' = None, history = Some True \<rparr> ''tab2'' = Push ''#modal''"
proof -
  have h1: "prefix' \<lparr> url = ''modal'', prefix' = None, history = None \<rparr> = None" by simp
  have h2: "prefix' \<lparr> url = ''modal'', prefix' = None, history = Some True \<rparr> = None" by simp
  show ?thesis
    using control_without_prefix [OF h1, of "Some ''tab2''" "''tab2''"]
      control_without_prefix [OF h2, of "Some ''tab2''" "''tab2''"]
    by (simp add: truthy_def)
qed


section \<open>Properties of the ActivityTracker store\<close>

subsection \<open>A run of the store\<close>

text \<open>
  A store limited to two records that skips \<open>/login\<close>, with the score
  \<open>count / (1 + elapsed)\<close>: \<open>/a\<close> is visited twice, \<open>/login\<close> is not recorded, and the
  visit of \<open>/c\<close> evicts \<open>/b\<close>, whose score is then the lowest.
\<close>

lemma eviction_example:
  "track_all (\<lambda>c t now. real c / (1 + real_of_int (now - t)))
     \<lparr> max' = Some 2, exclude = [''/login''] \<rparr> []
     [(10, \<lparr> route_path = ''/a'', route_meta = () \<rparr>),
      (20, \<lparr> route_path = ''/b'', route_meta = () \<rparr>),
      (30, \<lparr> route_path = ''/a'', route_meta = () \<rparr>),
      (40, \<lparr> route_path = ''/login'', route_meta = () \<rparr>),
      (50, \<lparr> route_path = ''/c'', route_meta = () \<rparr>)] =
   [\<lparr> path = ''/a'', count = 2, lastVisited = 30, meta = () \<rparr>,
    \<lparr> path = ''/c'', count = 1, lastVisited = 50, meta = () \<rparr>]"
  by (simp add: track_def upsert_def excluded_def would_exceed_def evict_def visit_def
      less_relevant_def score_def)

subsection \<open>The order of eviction\<close>

lemma not_less_relevant_trans:
  "\<not> less_relevant sc now b a \<Longrightarrow> \<not> less_relevant sc now c b \<Longrightarrow> \<not> less_relevant sc now c a"
  unfolding less_relevant_def by auto

lemma not_less_relevant_refl: "\<not> less_relevant sc now a a"
  by (simp add: less_relevant_def)

lemma less_relevant_asym: "less_relevant sc now a b \<Longrightarrow> \<not> less_relevant sc now b a"
  unfolding less_relevant_def by auto

lemma lowest_mem: "lowest sc now b rs \<in> set (b # rs)"
  by (induction rs arbitrary: b) auto

lemma lowest_below_start: "\<not> less_relevant sc now b (lowest sc now b rs)"
proof (induction rs arbitrary: b)
  case Nil
  show ?case by (simp add: not_less_relevant_refl)
next
  case (Cons r rs)
  show ?case
  proof (cases "less_relevant sc now r b")
    case True
    have "\<not> less_relevant sc now r (lowest sc now r rs)" by (rule Cons.IH)
    moreover have "\<not> less_relevant sc now b r" using True by (rule less_relevant_asym)
    ultimately have "\<not> less_relevant sc now b (lowest sc now r rs)"
      by (rule not_less_relevant_trans)
    then show ?thesis using True by simp
  next
    case False
    then show ?thesis using Cons.IH [of b] by simp
  qed
qed

lemma lowest_least: "r \<in> set (b # rs) \<Longrightarrow> \<not> less_relevant sc now r (lowest sc now b rs)"
proof (induction rs arbitrary: b)
  case Nil
  then show ?case by (simp add: not_less_relevant_refl)
next
  case (Cons x xs)
  let ?b' = "if less_relevant sc now x b then x else b"
  have step: "lowest sc now b (x # xs) = lowest sc now ?b' xs" by simp
  consider "r = b" | "r = x" | "r \<in> set xs" using Cons.prems by auto
  then show ?case
  proof cases
    case 1
    have "\<not> less_relevant sc now ?b' (lowest sc now ?b' xs)" by (rule lowest_below_start)
    moreover have "\<not> less_relevant sc now b ?b'"
      by (auto simp: not_less_relevant_refl dest: less_relevant_asym)
    ultimately show ?thesis unfolding step 1 by (rule not_less_relevant_trans)
  next
    case 2
    have "\<not> less_relevant sc now ?b' (lowest sc now ?b' xs)" by (rule lowest_below_start)
    moreover have "\<not> less_relevant sc now x ?b'"
      by (auto simp: not_less_relevant_refl)
    ultimately show ?thesis unfolding step 2 by (rule not_less_relevant_trans)
  next
    case 3
    then have "r \<in> set (?b' # xs)" by simp
    then show ?thesis unfolding step by (rule Cons.IH)
  qed
qed

lemma length_evict: "length (evict sc now recs) = length recs - 1"
proof (cases recs)
  case Nil
  then show ?thesis by (simp add: evict_def)
next
  case (Cons r rs)
  have "lowest sc now r rs \<in> set recs" using lowest_mem [of sc now r rs] Cons by simp
  then have "length (remove1 (lowest sc now r rs) recs) = length recs - 1"
    by (simp add: length_remove1)
  moreover have "evict sc now recs = remove1 (lowest sc now r rs) recs"
    unfolding evict_def Cons by simp
  ultimately show ?thesis by simp
qed

lemma set_evict: "set (evict sc now recs) \<subseteq> set recs"
  by (cases recs) (auto simp: evict_def dest: notin_set_remove1)

lemma distinct_map_remove1: "distinct (map f xs) \<Longrightarrow> distinct (map f (remove1 x xs))"
proof (induction xs)
  case Nil
  show ?case by simp
next
  case (Cons y ys)
  have "f y \<notin> f ` set (remove1 x ys)"
    using Cons.prems set_remove1_subset [of x ys] by auto
  then show ?case using Cons by simp
qed

lemma distinct_paths_evict:
  "distinct (map path recs) \<Longrightarrow> distinct (map path (evict sc now recs))"
  unfolding evict_def by (cases recs) (simp_all add: distinct_map_remove1 del: remove1.simps)

lemma map_path_visit:
  "map path (map (\<lambda>r. if path r = p then visit now r else r) recs) = map path recs"
  by (induction recs) (simp_all add: visit_def)

lemma distinct_paths_upsert:
  assumes "distinct (map path recs)"
  shows "distinct (map path (upsert sc cfg now p m recs))"
proof -
  let ?kept = "if would_exceed cfg recs then evict sc now recs else recs"
  have kept: "distinct (map path ?kept)"
    using assms by (simp add: distinct_paths_evict)
  have fresh: "p \<notin> path ` set ?kept" if "\<not> list_ex (\<lambda>r. path r = p) recs"
    using that set_evict [of sc now recs] by (auto simp: list_ex_iff)
  consider (skip) "excluded cfg p"
    | (update) "\<not> excluded cfg p" "list_ex (\<lambda>r. path r = p) recs"
    | (insert) "\<not> excluded cfg p" "\<not> list_ex (\<lambda>r. path r = p) recs"
    by blast
  then show ?thesis
  proof cases
    case skip
    then show ?thesis using assms by (simp add: upsert_def)
  next
    case update
    then have "upsert sc cfg now p m recs = map (\<lambda>r. if path r = p then visit now r else r) recs"
      by (simp add: upsert_def)
    then show ?thesis using assms by (simp only: map_path_visit)
  next
    case insert
    then have "upsert sc cfg now p m recs =
        ?kept @ [\<lparr> path = p, count = 1, lastVisited = now, meta = m \<rparr>]"
      by (simp add: upsert_def)
    then show ?thesis using kept fresh [OF insert(2)] by simp
  qed
qed

lemma length_upsert:
  assumes "max' cfg = Some m" and "0 < m" and "length recs \<le> m"
  shows "length (upsert sc cfg now p x recs) \<le> m"
  using assms by (auto simp: upsert_def would_exceed_def length_evict)

lemma distinct_paths_track_all:
  "distinct (map path recs) \<Longrightarrow> distinct (map path (track_all sc cfg recs evs))"
  by (induction evs arbitrary: recs) (simp_all add: track_def distinct_paths_upsert)

lemma length_track_all:
  "max' cfg = Some m \<Longrightarrow> 0 < m \<Longrightarrow> length recs \<le> m \<Longrightarrow>
   length (track_all sc cfg recs evs) \<le> m"
  by (induction evs arbitrary: recs) (simp_all add: track_def length_upsert)

lemma upsert_evicts:
  assumes "max' cfg = Some m" and "0 < m" and "m \<le> length recs"
    and "\<not> excluded cfg p" and "p \<notin> path ` set recs"
  shows "\<exists>v \<in> set recs.
           upsert sc cfg now p x recs =
             remove1 v recs @ [\<lparr> path = p, count = 1, lastVisited = now, meta = x \<rparr>] \<and>
           (\<forall>r \<in> set recs. score sc now v \<le> score sc now r \<and>
              (score sc now r = score sc now v \<longrightarrow> lastVisited v \<le> lastVisited r))"
proof -
  obtain r rs where recs: "recs = r # rs" using assms(2,3) by (cases recs) auto
  let ?v = "lowest sc now r rs"
  have mem: "?v \<in> set recs" using lowest_mem [of sc now r rs] recs by simp
  have ex: "\<not> list_ex (\<lambda>r. path r = p) recs" using assms(5) by (auto simp: list_ex_iff)
  have "upsert sc cfg now p x recs =
          remove1 ?v recs @ [\<lparr> path = p, count = 1, lastVisited = now, meta = x \<rparr>]"
    using assms(1,3,4) ex unfolding upsert_def would_exceed_def evict_def recs by simp
  moreover have "\<forall>q \<in> set recs. score sc now ?v \<le> score sc now q \<and>
              (score sc now q = score sc now ?v \<longrightarrow> lastVisited ?v \<le> lastVisited q)"
  proof
    fix q assume "q \<in> set recs"
    then have "\<not> less_relevant sc now q ?v" unfolding recs by (rule lowest_least)
    then show "score sc now ?v \<le> score sc now q \<and>
              (score sc now q = score sc now ?v \<longrightarrow> lastVisited ?v \<le> lastVisited q)"
      unfolding less_relevant_def by auto
  qed
  ultimately show ?thesis using mem by blast
qed

subsection \<open>The size of the store\<close>

text \<open>
  C1.  For every store configured with a maximum \<open>m\<close> (a positive integer), the number
  of records never exceeds \<open>m\<close>: from the empty store after any sequence of \<open>track\<close>
  calls, and from any store within the bound after any \<open>upsert\<close> and any sequence of
  \<open>track\<close> calls.  Whenever inserting a new distinct, non-excluded path would exceed
  \<open>m\<close>, the new store is the old one without one record \<open>v\<close>, followed by the new record,
  and \<open>v\<close> has the lowest score at the time of the call, and among the records of that
  score the oldest \<open>lastVisited\<close>.
\<close>

theorem store_never_exceeds_max:
  assumes "max' cfg = Some m" and "0 < m"
  shows "length (track_all sc cfg [] evs) \<le> m \<and>
         (length recs \<le> m \<longrightarrow>
            length (upsert sc cfg now p x recs) \<le> m \<and> length (track_all sc cfg recs evs) \<le> m) \<and>
         (m \<le> length recs \<and> \<not> excluded cfg p \<and> p \<notin> path ` set recs \<longrightarrow>
            (\<exists>v \<in> set recs.
               upsert sc cfg now p x recs =
                 remove1 v recs @ [\<lparr> path = p, count = 1, lastVisited = now, meta = x \<rparr>] \<and>
               (\<forall>r \<in> set recs. score sc now v \<le> score sc now r \<and>
                  (score sc now r = score sc now v \<longrightarrow> lastVisited v \<le> lastVisited r))))"
proof (intro conjI impI)
  show "length (track_all sc cfg [] evs) \<le> m"
    using assms by (simp add: length_track_all)
next
  assume "length recs \<le> m"
  with assms show "length (upsert sc cfg now p x recs) \<le> m"
    by (rule length_upsert)
next
  assume "length recs \<le> m"
  with assms show "length (track_all sc cfg recs evs) \<le> m"
    by (rule length_track_all)
next
  assume "m \<le> length recs \<and> \<not> excluded cfg p \<and> p \<notin> path ` set recs"
  then show "\<exists>v \<in> set recs.
               upsert sc cfg now p x recs =
                 remove1 v recs @ [\<lparr> path = p, count = 1, lastVisited = now, meta = x \<rparr>] \<and>
               (\<forall>r \<in> set recs. score sc now v \<le> score sc now r \<and>
                  (score sc now r = score sc now v \<longrightarrow> lastVisited v \<le> lastVisited r))"
    using assms upsert_evicts [of cfg m recs p sc now x] by blast
qed

theorem store_never_exceeds_max_witness:
  "max' \<lparr> max' = Some 2, exclude = [''/login''] \<rparr> = Some 2 \<and> (0::nat) < 2 \<and>
   length [\<lparr> path = ''/a'', count = 2, lastVisited = 30, meta = () \<rparr>,
           \<lparr> path = ''/b'', count = 1, lastVisited = 20, meta = () \<rparr>] = 2 \<and>
   \<not> excluded \<lparr> max' = Some 2, exclude = [''/login''] \<rparr> ''/c'' \<and>
   ''/c'' \<notin> path ` set [\<lparr> path = ''/a'', count = 2, lastVisited = 30, meta = () \<rparr>,
                         \<lparr> path = ''/b'', count = 1, lastVisited = 20, meta = () \<rparr>] \<and>
   length (track_all (\<lambda>c t now. real c / (1 + real_of_int (now - t)))
             \<lparr> max' = Some 2, exclude = [''/login''] \<rparr>
             [\<lparr> path = ''/a'', count = 2, lastVisited = 30, meta = () \<rparr>,
              \<lparr> path = ''/b'', count = 1, lastVisited = 20, meta = () \<rparr>]
             [(50, \<lparr> route_path = ''/c'', route_meta = () \<rparr>),
              (60, \<lparr> route_path = ''/d'', route_meta = () \<rparr>)]) \<le> 2 \<and>
   (\<exists>v \<in> set [\<lparr> path = ''/a'', count = 2, lastVisited = 30, meta = () \<rparr>,
               \<lparr> path = ''/b'', count = 1, lastVisited = 20, meta = () \<rparr>].
      upsert (\<lambda>c t now. real c / (1 + real_of_int (now - t)))
        \<lparr> max' = Some 2, exclude = [''/login''] \<rparr> 50 ''/c'' ()
        [\<lparr> path = ''/a'', count = 2, lastVisited = 30, meta = () \<rparr>,
         \<lparr> path = ''/b'', count = 1, lastVisited = 20, meta = () \<rparr>] =
      remove1 v [\<lparr> path = ''/a'', count = 2, lastVisited = 30, meta = () \<rparr>,
                 \<lparr> path = ''/b'', count = 1, lastVisited = 20, meta = () \<rparr>]
        @ [\<lparr> path = ''/c'', count = 1, lastVisited = 50, meta = () \<rparr>] \<and>
      (\<forall>r \<in> set [\<lparr> path = ''/a'', count = 2, lastVisited = 30, meta = () \<rparr>,
                  \<lparr> path = ''/b'', count = 1, lastVisited = 20, meta = () \<rparr>].
         score (\<lambda>c t now. real c / (1 + real_of_int (now - t))) 50 v
           \<le> score (\<lambda>c t now. real c / (1 + real_of_int (now - t))) 50 r \<and>
         (score (\<lambda>c t now. real c / (1 + real_of_int (now - t))) 50 r =
          score (\<lambda>c t now. real c / (1 + real_of_int (now - t))) 50 v \<longrightarrow>
          lastVisited v \<le> lastVisited r)))"
proof -
  let ?cfg = "\<lparr> max' = Some 2, exclude = [''/login''] \<rparr>"
  let ?recs = "[\<lparr> path = ''/a'', count = 2, lastVisited = 30, meta = () \<rparr>,
                \<lparr> path = ''/b'', count = 1, lastVisited = 20, meta = () \<rparr>]"
  have h1: "max' ?cfg = Some 2" by simp
  have h2: "(0::nat) < 2" by simp
  have h3: "length ?recs = 2" by simp
  have le: "length ?recs \<le> 2" and ge: "2 \<le> length ?recs" by simp_all
  have h4: "\<not> excluded ?cfg ''/c''" by (simp add: excluded_def)
  have h5: "''/c'' \<notin> path ` set ?recs" by simp
  note inst = store_never_exceeds_max [OF h1 h2,
      where recs = ?recs and p = "''/c''" and now = 50 and x = "()"
        and sc = "\<lambda>c t now. real c / (1 + real_of_int (now - t))"
        and evs = "[(50, \<lparr> route_path = ''/c'', route_meta = () \<rparr>),
                    (60, \<lparr> route_path = ''/d'', route_meta = () \<rparr>)]"]
  from inst le have a: "length (track_all (\<lambda>c t now. real c / (1 + real_of_int (now - t)))
             ?cfg ?recs
             [(50, \<lparr> route_path = ''/c'', route_meta = () \<rparr>),
              (60, \<lparr> route_path = ''/d'', route_meta = () \<rparr>)]) \<le> 2"
    by blast
  from inst ge h4 h5 have b: "\<exists>v \<in> set ?recs.
      upsert (\<lambda>c t now. real c / (1 + real_of_int (now - t))) ?cfg 50 ''/c'' () ?recs =
      remove1 v ?recs @ [\<lparr> path = ''/c'', count = 1, lastVisited = 50, meta = () \<rparr>] \<and>
      (\<forall>r \<in> set ?recs.
         score (\<lambda>c t now. real c / (1 + real_of_int (now - t))) 50 v
           \<le> score (\<lambda>c t now. real c / (1 + real_of_int (now - t))) 50 r \<and>
         (score (\<lambda>c t now. real c / (1 + real_of_int (now - t))) 50 r =
          score (\<lambda>c t now. real c / (1 + real_of_int (now - t))) 50 v \<longrightarrow>
          lastVisited v \<le> lastVisited r))"
    by blast
  from h1 h2 h3 h4 h5 a b show ?thesis by (intro conjI)
qed

subsection \<open>One record per path\<close>

text \<open>
  C2.  For every sequence of \<open>track\<close> calls the store holds at most one record per
  distinct path: the paths of the records are pairwise distinct after any sequence of
  calls from the empty store, and from any store whose paths are distinct.
\<close>

theorem one_record_per_path:
  "distinct (map path (track_all sc cfg [] evs)) \<and>
   (distinct (map path recs) \<longrightarrow> distinct (map path (track_all sc cfg recs evs)))"
  by (simp add: distinct_paths_track_all)

theorem one_record_per_path_witness:
  "distinct (map path [\<lparr> path = ''/a'', count = 2, lastVisited = 30, meta = () \<rparr>]) \<and>
   distinct (map path
     (track_all (\<lambda>c t now. real c / (1 + real_of_int (now - t)))
        \<lparr> max' = None, exclude = [''/login''] \<rparr>
        [\<lparr> path = ''/a'', count = 2, lastVisited = 30, meta = () \<rparr>]
        [(40, \<lparr> route_path = ''/b'', route_meta = () \<rparr>),
         (50, \<lparr> route_path = ''/a'', route_meta = () \<rparr>),
         (60, \<lparr> route_path = ''/b'', route_meta = () \<rparr>)]))"
proof -
  have h: "distinct (map path [\<lparr> path = ''/a'', count = 2, lastVisited = 30, meta = () \<rparr>])"
    by simp
  show ?thesis
    using h one_record_per_path [where recs = "[\<lparr> path = ''/a'', count = 2, lastVisited = 30, meta = () \<rparr>]"]
    by blast
qed

end
